theory Spec2Isabelle
  imports Complex_Main "HOL-Library.Log_Nat" "HOL-Library.Multiset"
begin

section \<open>Python strings\<close>

text \<open>
  A Python \<^verbatim>\<open>str\<close> is a sequence of Unicode code points; \<^verbatim>\<open>len\<close> and indexing count
  code points.  A code point is modelled by its number, so that the delimiter
  \<^verbatim>\<open>DELIM\<close> of the source, the single code point U+F000, is an ordinary character
  of the model.
\<close>

type_synonym codepoint = nat
type_synonym str = "codepoint list"

text \<open>An ASCII literal of the model, written as a HOL string.\<close>

definition ascii :: "string \<Rightarrow> str" where
  "ascii s = map of_char s"

text \<open>
  \<^verbatim>\<open>str.isspace\<close> of one character: the code points that \<^verbatim>\<open>strip()\<close> and \<^verbatim>\<open>split()\<close>
  treat as whitespace (bidirectional class WS, B or S, or category Zs).
\<close>

definition is_space :: "codepoint \<Rightarrow> bool" where
  "is_space c \<longleftrightarrow>
     (9 \<le> c \<and> c \<le> 13) \<or> (28 \<le> c \<and> c \<le> 32) \<or> c = 133 \<or> c = 160 \<or> c = 5760 \<or>
     (8192 \<le> c \<and> c \<le> 8202) \<or> c = 8232 \<or> c = 8233 \<or> c = 8239 \<or> c = 8287 \<or> c = 12288"

text \<open>The line boundaries of \<^verbatim>\<open>str.splitlines()\<close>.\<close>

definition is_linebreak :: "codepoint \<Rightarrow> bool" where
  "is_linebreak c \<longleftrightarrow>
     (10 \<le> c \<and> c \<le> 13) \<or> (28 \<le> c \<and> c \<le> 30) \<or> c = 133 \<or> c = 8232 \<or> c = 8233"

text \<open>
  \<^verbatim>\<open>cfg.splitlines()\<close>: the text is cut at every line boundary, \<^verbatim>\<open>\r\n\<close> counting as
  one; a boundary at the very end opens no further (empty) line.  The first argument
  is the line read so far.
\<close>

fun splitlines_from :: "str \<Rightarrow> str \<Rightarrow> str list" where
  "splitlines_from cur [] = (if cur = [] then [] else [cur])"
| "splitlines_from cur [c] = (if is_linebreak c then [cur] else [cur @ [c]])"
| "splitlines_from cur (c # d # cs) =
     (if is_linebreak c then
        cur # (if c = 13 \<and> d = 10 then splitlines_from [] cs else splitlines_from [] (d # cs))
      else splitlines_from (cur @ [c]) (d # cs))"

definition splitlines :: "str \<Rightarrow> str list" where
  "splitlines cfg = splitlines_from [] cfg"

text \<open>\<^verbatim>\<open>line.strip()\<close> and \<^verbatim>\<open>line.lstrip(" ")\<close>.\<close>

definition strip :: "str \<Rightarrow> str" where
  "strip s = rev (dropWhile is_space (rev (dropWhile is_space s)))"

definition lstrip_blank :: "str \<Rightarrow> str" where
  "lstrip_blank s = dropWhile (\<lambda>c. c = 32) s"

text \<open>
  \<^verbatim>\<open>a.split()\<close> with no separator: the maximal runs of non-whitespace characters.
  The first argument is the token read so far.
\<close>

fun split_from :: "str \<Rightarrow> str \<Rightarrow> str list" where
  "split_from cur [] = (if cur = [] then [] else [cur])"
| "split_from cur (c # cs) =
     (if is_space c then (if cur = [] then split_from [] cs else cur # split_from [] cs)
      else split_from (cur @ [c]) cs)"

definition split_ws :: "str \<Rightarrow> str list" where
  "split_ws s = split_from [] s"

text \<open>\<^verbatim>\<open>DELIM\<close>, \<^verbatim>\<open>DELIM.join(parts)\<close> and \<^verbatim>\<open>s.split(DELIM)\<close>.\<close>

definition DELIM :: str where
  "DELIM = [61440]"

fun join :: "str \<Rightarrow> str list \<Rightarrow> str" where
  "join sep [] = []"
| "join sep [x] = x"
| "join sep (x # y # ys) = x @ sep @ join sep (y # ys)"

fun split_delim_from :: "str \<Rightarrow> str \<Rightarrow> str list" where
  "split_delim_from cur [] = [cur]"
| "split_delim_from cur (c # cs) =
     (if [c] = DELIM then cur # split_delim_from [] cs else split_delim_from (cur @ [c]) cs)"

definition split_delim :: "str \<Rightarrow> str list" where
  "split_delim s = split_delim_from [] s"

section \<open>Python floats\<close>

text \<open>
  A finite Python \<^verbatim>\<open>float\<close> (IEEE 754 binary64) is modelled by the rational number it
  denotes.  Every arithmetic operation on floats, every \<^verbatim>\<open>int / int\<close> and every decimal
  literal yields the exact result rounded to the nearest binary64 number, ties going
  to the even significand: this is \<open>fl\<close>.  \<open>rne\<close> rounds to an integer, ties to even
  (it is also Python 3's \<^verbatim>\<open>round(x)\<close>), and \<open>binade x\<close> is the exponent \<open>e\<close> with
  \<open>2 powi e \<le> x < 2 powi (e + 1)\<close>, not below the smallest normal exponent \<open>- 1022\<close>.
  Overflow to infinity is left out: the floats of this program lie between \<open>- 2\<close> and
  \<open>100\<close>.
\<close>

definition rne :: "rat \<Rightarrow> int" where
  "rne x = (let f = \<lfloor>x\<rfloor>; r = x - of_int f in
     if r < 1 / 2 then f else if 1 / 2 < r then f + 1 else if even f then f else f + 1)"

definition binade :: "rat \<Rightarrow> int" where
  "binade x = (if 1 \<le> x then bitlen \<lfloor>x\<rfloor> - 1
     else max (- 1022) (- bitlen (\<lceil>1 / x\<rceil> - 1)))"

definition fl :: "rat \<Rightarrow> rat" where
  "fl x = (if x = 0 then 0 else
     let a = \<bar>x\<bar>; u = 2 powi (binade a - 52) in sgn x * (of_int (rne (a / u)) * u))"

section \<open>The hierarchy parser: \<^verbatim>\<open>ConfigDiffer.parse\<close>\<close>

text \<open>One value of the dictionary that \<^verbatim>\<open>parse\<close> returns.\<close>

record item =
  string :: str
  path :: str
  is_parent :: bool

text \<open>\<^verbatim>\<open>indent(line) = len(line) - len(line.lstrip(" "))\<close>.\<close>

definition indent :: "str \<Rightarrow> nat" where
  "indent line = length line - length (lstrip_blank line)"

text \<open>
  \<^verbatim>\<open>while path_stack and path_stack[-1][0] >= indent_level: path_stack.pop()\<close>; the top
  of the stack is the last element of the list.
\<close>

definition pop_stack :: "nat \<Rightarrow> (nat \<times> str) list \<Rightarrow> (nat \<times> str) list" where
  "pop_stack indent_level path_stack =
     rev (dropWhile (\<lambda>p. indent_level \<le> fst p) (rev path_stack))"

text \<open>
  The lookahead \<^verbatim>\<open>for j in range(i + 1, len(lines))\<close> over the lines after the current
  one: the first non-blank line decides, and the loop stops there.
\<close>

fun lookahead :: "nat \<Rightarrow> str list \<Rightarrow> bool" where
  "lookahead indent_level [] = False"
| "lookahead indent_level (l # ls) =
     (if strip l \<noteq> [] then indent_level < indent l else lookahead indent_level ls)"

text \<open>
  The main loop of \<^verbatim>\<open>parse\<close> over the lines still to read.  The result dictionary has
  the keys \<open>1, 2, \<dots>\<close> in insertion order; it is modelled by the list of its values.
\<close>

fun parse_lines :: "(nat \<times> str) list \<Rightarrow> str list \<Rightarrow> item list" where
  "parse_lines path_stack [] = []"
| "parse_lines path_stack (line # rest) =
     (let stripped_line = strip line in
      if stripped_line = [] then parse_lines path_stack rest
      else
        let indent_level = indent line;
            path_stack' = pop_stack indent_level path_stack;
            current_path = join DELIM (map snd path_stack')
        in \<lparr>string = stripped_line, path = current_path,
             is_parent = lookahead indent_level rest\<rparr>
           # parse_lines (path_stack' @ [(indent_level, stripped_line)]) rest)"

definition parse :: "str \<Rightarrow> item list" where
  "parse cfg = parse_lines [] (splitlines cfg)"

section \<open>The similarity of two lines\<close>

text \<open>
  \<^verbatim>\<open>left_prefix_similarity\<close>: the loop over \<^verbatim>\<open>zip(a_tokens, b_tokens)\<close> counts the pairs
  before the first unequal one.
\<close>

definition left_prefix_similarity :: "str \<Rightarrow> str \<Rightarrow> rat" where
  "left_prefix_similarity a b =
     (let a_tokens = split_ws a; b_tokens = split_ws b;
          max_len = max (length a_tokens) (length b_tokens)
      in if max_len = 0 then 0
         else let match_len = length (takeWhile (\<lambda>(ta, tb). ta = tb) (zip a_tokens b_tokens))
              in fl (of_nat match_len / of_nat max_len))"

definition token_jaccard :: "str \<Rightarrow> str \<Rightarrow> rat" where
  "token_jaccard a b =
     (let a_set = set (split_ws a); b_set = set (split_ws b)
      in if a_set = {} \<and> b_set = {} then 1
         else fl (of_nat (card (a_set \<inter> b_set)) / of_nat (card (a_set \<union> b_set))))"

definition cisco_similarity :: "str \<Rightarrow> str \<Rightarrow> rat" where
  "cisco_similarity a b =
     (let a_tokens = split_ws a; b_tokens = split_ws b
      in if a_tokens = [] \<or> b_tokens = [] \<or> hd a_tokens \<noteq> hd b_tokens then 0
         else if 4 < \<bar>int (length a_tokens) - int (length b_tokens)\<bar> then 0
         else let prefix_score = left_prefix_similarity a b;
                  token_score = token_jaccard a b
              in fl (fl (fl (7 / 10) * prefix_score) + fl (fl (3 / 10) * token_score)))"

section \<open>The line matcher: \<^verbatim>\<open>ConfigDiffer.compare\<close>\<close>

text \<open>One value of the dictionary \<^verbatim>\<open>self.results\<close>; \<^verbatim>\<open>item.get("is_added")\<close> of a record
  without that key is false.\<close>

record diff_item = item +
  best_match :: str
  similarity_score :: rat
  is_matched :: bool
  diff_positions :: "nat list"
  is_added :: bool

text \<open>
  A parsed target line is a dictionary object, and \<^verbatim>\<open>used_target_lines\<close> holds the
  \<^verbatim>\<open>id\<close> of the consumed ones.  The objects of \<^verbatim>\<open>target_parsed\<close> are distinct and alive
  during the whole comparison, so the identity of one is its position in
  \<^verbatim>\<open>target_parsed\<close>, counted from 0.
\<close>

definition candidates :: "item list \<Rightarrow> nat set \<Rightarrow> str \<Rightarrow> (nat \<times> item) list" where
  "candidates target_parsed used base_path =
     filter (\<lambda>(j, c). path c = base_path \<and> j \<notin> used) (enumerate 0 target_parsed)"

text \<open>
  The loop \<^verbatim>\<open>for candidate in candidates\<close>, run on the candidates still to visit with
  the current \<^verbatim>\<open>(best_match, best_score)\<close>; the variable \<^verbatim>\<open>best_match\<close> is called \<open>best\<close>
  here, and a candidate is a target line with its identity.  For a parent line the first
  equal text ends the loop (\<^verbatim>\<open>break\<close>) and any other candidate is skipped (\<^verbatim>\<open>continue\<close>).
\<close>

fun find_best ::
  "bool \<Rightarrow> str \<Rightarrow> (nat \<times> item) list \<Rightarrow> (nat \<times> item) option \<times> rat \<Rightarrow> (nat \<times> item) option \<times> rat"
where
  "find_best base_is_parent base_string [] best = best"
| "find_best base_is_parent base_string (candidate # rest) (best, best_score) =
     (let target_string = string (snd candidate) in
      if base_is_parent then
        (if base_string = target_string then (Some candidate, 1)
         else find_best base_is_parent base_string rest (best, best_score))
      else
        let score = cisco_similarity base_string target_string in
        if best_score < score then find_best base_is_parent base_string rest (Some candidate, score)
        else find_best base_is_parent base_string rest (best, best_score))"

text \<open>What one iteration of the loop over the base lines selects.\<close>

definition best_of :: "item list \<Rightarrow> nat set \<Rightarrow> item \<Rightarrow> (nat \<times> item) option \<times> rat" where
  "best_of target_parsed used base_item =
     find_best (is_parent base_item) (string base_item)
       (candidates target_parsed used (path base_item)) (None, - 1)"

text \<open>The difference positions of an accepted pair.\<close>

definition diff_of :: "str \<Rightarrow> str \<Rightarrow> nat list" where
  "diff_of a b =
     (let min_len = min (length a) (length b)
      in filter (\<lambda>i. a ! i \<noteq> b ! i) [0..<min_len] @ [min_len..<max (length a) (length b)])"

text \<open>
  One iteration of \<^verbatim>\<open>for line_num, base_item in self.base_parsed.items()\<close>: the new set
  of consumed target lines, the target line consumed in this iteration (if any) and
  the record stored under \<^verbatim>\<open>line_num\<close>.
\<close>

definition compare_line ::
  "item list \<Rightarrow> nat set \<Rightarrow> item \<Rightarrow> nat set \<times> nat option \<times> diff_item"
where
  "compare_line target_parsed used base_item =
     (let base_string = string base_item;
          (best, best_score) = best_of target_parsed used base_item;
          matched = (best \<noteq> None \<and> fl (6 / 10) \<le> best_score)
      in if matched then
           let b = string (snd (the best)) in
           (insert (fst (the best)) used, Some (fst (the best)),
            \<lparr>string = base_string, path = path base_item, is_parent = is_parent base_item,
             best_match = b, similarity_score = best_score, is_matched = True,
             diff_positions = diff_of base_string b, is_added = False\<rparr>)
         else
           (used, None,
            \<lparr>string = base_string, path = path base_item, is_parent = is_parent base_item,
             best_match = [], similarity_score = best_score, is_matched = False,
             diff_positions = [0..<length base_string], is_added = False\<rparr>))"

text \<open>
  The loop over the base lines.  It returns the final \<^verbatim>\<open>used_target_lines\<close> and, for
  every base line in order, the target line it consumed and its record.
\<close>

fun compare_base ::
  "item list \<Rightarrow> nat set \<Rightarrow> item list \<Rightarrow> nat set \<times> (nat option \<times> diff_item) list"
where
  "compare_base target_parsed used [] = (used, [])"
| "compare_base target_parsed used (base_item # rest) =
     (let (used', consumed, record) = compare_line target_parsed used base_item;
          (used'', records) = compare_base target_parsed used' rest
      in (used'', (consumed, record) # records))"

text \<open>The record of a target line that was never consumed.\<close>

definition added_record :: "item \<Rightarrow> diff_item" where
  "added_record target_item =
     \<lparr>string = string target_item, path = path target_item, is_parent = is_parent target_item,
      best_match = [], similarity_score = - 2, is_matched = False,
      diff_positions = [0..<length (string target_item)], is_added = True\<rparr>"

text \<open>
  The second loop, over all target lines: the keys \<open>next_line, next_line + 1, \<dots>\<close>
  follow the keys of the base records, so the new records come after them.
\<close>

definition added_records :: "item list \<Rightarrow> nat set \<Rightarrow> diff_item list" where
  "added_records target_parsed used =
     map (added_record \<circ> snd) (filter (\<lambda>(j, t). j \<notin> used) (enumerate 0 target_parsed))"

text \<open>The matcher on two parsed configurations, and \<^verbatim>\<open>compare\<close> on two texts:
  the values of \<^verbatim>\<open>self.results\<close> in key order.\<close>

definition compare_parsed :: "item list \<Rightarrow> item list \<Rightarrow> diff_item list" where
  "compare_parsed target_parsed base_parsed =
     (let (used, records) = compare_base target_parsed {} base_parsed
      in map snd records @ added_records target_parsed used)"

definition compare :: "str \<Rightarrow> str \<Rightarrow> diff_item list" where
  "compare target_cfg base_cfg = compare_parsed (parse target_cfg) (parse base_cfg)"

section \<open>Dispositions\<close>

text \<open>
  The disposition of a record is read off it by the tests of
  \<^verbatim>\<open>DiffRenderer._render_item\<close>, in their order: \<^verbatim>\<open>is_added\<close>, then \<^verbatim>\<open>not is_matched\<close>,
  then \<^verbatim>\<open>similarity_score < 1.0\<close>.
\<close>

datatype disposition = Unmatched_Removed | Unmatched_Added | Matched_Identical | Matched_Changed

definition disposition :: "diff_item \<Rightarrow> disposition" where
  "disposition r =
     (if is_added r then Unmatched_Added
      else if \<not> is_matched r then Unmatched_Removed
      else if similarity_score r < 1 then Matched_Changed
      else Matched_Identical)"

section \<open>The diff tree: \<^verbatim>\<open>DiffRenderer._build_tree\<close>\<close>

text \<open>
  The tree is a nested Python dictionary.  Under the key \<^verbatim>\<open>"root_items"\<close> a dictionary
  holds the list of the records of its node, under any other key the dictionary of a
  child node.  A dictionary is modelled by its entries in insertion order.  Calling
  \<^verbatim>\<open>setdefault\<close> on a list or \<^verbatim>\<open>append\<close> on a dictionary raises \<^verbatim>\<open>AttributeError\<close>.
\<close>

datatype error = AttributeError

datatype tree = Items "diff_item list" | Node "(str \<times> tree) list"

definition root_items :: str where
  "root_items = ascii ''root_items''"

text \<open>\<^verbatim>\<open>d[key] = value\<close>: an existing key keeps its place, a new one goes last.\<close>

fun dict_set :: "str \<Rightarrow> tree \<Rightarrow> (str \<times> tree) list \<Rightarrow> (str \<times> tree) list" where
  "dict_set key val [] = [(key, val)]"
| "dict_set key val ((k, v) # d) =
     (if k = key then (key, val) # d else (k, v) # dict_set key val d)"

text \<open>\<^verbatim>\<open>d.setdefault(key, default)\<close>: the value now under the key.\<close>

definition setdefault :: "(str \<times> tree) list \<Rightarrow> str \<Rightarrow> tree \<Rightarrow> tree" where
  "setdefault d key dflt = (case map_of d key of None \<Rightarrow> dflt | Some v \<Rightarrow> v)"

text \<open>
  The body of the loop of \<^verbatim>\<open>_build_tree\<close> for one record, started at \<open>node\<close>: the
  descent \<^verbatim>\<open>node = node.setdefault(part, {})\<close> along the parts of the path, then
  \<^verbatim>\<open>node.setdefault("root_items", []).append(item)\<close> unless the record is an unmatched
  parent.  The result is the node with the change made inside it.
\<close>

fun place :: "str list \<Rightarrow> diff_item \<Rightarrow> tree \<Rightarrow> error + tree" where
  "place [] it (Node d) =
     (if is_parent it \<and> \<not> is_matched it then Inr (Node d)
      else case setdefault d root_items (Items []) of
             Items l \<Rightarrow> Inr (Node (dict_set root_items (Items (l @ [it])) d))
           | Node _ \<Rightarrow> Inl AttributeError)"
| "place [] it (Items l) =
     (if is_parent it \<and> \<not> is_matched it then Inr (Items l) else Inl AttributeError)"
| "place (part # parts) it (Node d) =
     (case place parts it (setdefault d part (Node [])) of
        Inl e \<Rightarrow> Inl e
      | Inr sub \<Rightarrow> Inr (Node (dict_set part sub d)))"
| "place (part # parts) it (Items l) = Inl AttributeError"

text \<open>\<^verbatim>\<open>item["path"].split(DELIM)\<close> when the path is not empty, no part otherwise.\<close>

definition key_path :: "diff_item \<Rightarrow> str list" where
  "key_path it = (if path it = [] then [] else split_delim (path it))"

fun build_tree_from :: "tree \<Rightarrow> diff_item list \<Rightarrow> error + tree" where
  "build_tree_from t [] = Inr t"
| "build_tree_from t (it # its) =
     (case place (key_path it) it t of Inl e \<Rightarrow> Inl e | Inr t' \<Rightarrow> build_tree_from t' its)"

definition build_tree :: "diff_item list \<Rightarrow> error + tree" where
  "build_tree results = build_tree_from (Node []) results"

text \<open>The record list of the node with the given key path; empty when there is no
  such node or the node has no list.\<close>

fun records_at :: "str list \<Rightarrow> tree \<Rightarrow> diff_item list" where
  "records_at [] (Node d) = (case map_of d root_items of Some (Items l) \<Rightarrow> l | _ \<Rightarrow> [])"
| "records_at (part # parts) (Node d) =
     (case map_of d part of Some sub \<Rightarrow> records_at parts sub | None \<Rightarrow> [])"
| "records_at parts (Items l) = []"

section \<open>Rendering and the compliance summary\<close>

text \<open>
  \<^verbatim>\<open>_render_item\<close>: the class of the \<^verbatim>\<open><div class="item ...">\<close> written for a record, or
  nothing for a matched, unchanged parent line (the empty string).
\<close>

datatype item_class = Is_added | Is_removed | Is_changed | Is_unchanged

definition render_item :: "diff_item \<Rightarrow> item_class option" where
  "render_item it =
     (if is_added it then Some Is_added
      else if \<not> is_matched it then Some Is_removed
      else if similarity_score it < 1 then Some Is_changed
      else if is_parent it then None
      else Some Is_unchanged)"

text \<open>
  \<^verbatim>\<open>_render_section\<close> on the entries of a dictionary.  Of the markup only the items
  matter to the summary, so the model returns the classes of the items written, in
  document order.  Under \<^verbatim>\<open>"root_items"\<close> the loop \<^verbatim>\<open>for item in value\<close> runs over the
  records of a list, but over the keys of a dictionary, and \<^verbatim>\<open>_render_item\<close> of a key
  (a string) raises; any other value must be a dictionary.
\<close>

fun render_section :: "(str \<times> tree) list \<Rightarrow> error + item_class option list" where
  "render_section [] = Inr []"
| "render_section ((key, val) # rest) =
     (case (if key = root_items then
              (case val of
                 Items l \<Rightarrow> Inr (map render_item l)
               | Node d \<Rightarrow> if d = [] then Inr [] else Inl AttributeError)
            else
              (case val of Node d \<Rightarrow> render_section d | Items l \<Rightarrow> Inl AttributeError))
      of Inl e \<Rightarrow> Inl e
       | Inr xs \<Rightarrow> (case render_section rest of Inl e \<Rightarrow> Inl e | Inr ys \<Rightarrow> Inr (xs @ ys)))"

text \<open>
  \<^verbatim>\<open>render\<close>: the tree is built, its top-level \<^verbatim>\<open>"root_items"\<close> is taken out and, if it
  is not empty, rendered first as the section \<^verbatim>\<open>"global"\<close>; the other top-level
  sections follow.
\<close>

definition truthy :: "tree \<Rightarrow> bool" where
  "truthy v = (case v of Items l \<Rightarrow> l \<noteq> [] | Node d \<Rightarrow> d \<noteq> [])"

definition render_tree :: "(str \<times> tree) list \<Rightarrow> error + item_class option list" where
  "render_tree d =
     (let global_items = setdefault d root_items (Items []);
          others = filter (\<lambda>(k, v). k \<noteq> root_items) d
      in case (if truthy global_items then render_section [(root_items, global_items)]
               else Inr [])
         of Inl e \<Rightarrow> Inl e
          | Inr xs \<Rightarrow> (case render_section others of Inl e \<Rightarrow> Inl e | Inr ys \<Rightarrow> Inr (xs @ ys)))"

definition render :: "diff_item list \<Rightarrow> error + item_class option list" where
  "render results =
     (case build_tree results of
        Inl e \<Rightarrow> Inl e
      | Inr t \<Rightarrow> (case t of Items l \<Rightarrow> Inl AttributeError | Node d \<Rightarrow> render_tree d))"

text \<open>
  \<^verbatim>\<open>handle_initial\<close> counts, for each class, the matches of
  \<^verbatim>\<open>class="item\s+is-..."\<close> in the rendered page: one for every item written.  (The two
  configuration texts are escaped in the page; the text of a line is taken not to
  contain such a marker itself.)
\<close>

record stats =
  unchanged :: nat
  changed :: nat
  added :: nat
  removed :: nat

definition count_class :: "item_class \<Rightarrow> item_class option list \<Rightarrow> nat" where
  "count_class c html = length (filter (\<lambda>x. x = Some c) html)"

definition stats_of :: "item_class option list \<Rightarrow> stats" where
  "stats_of html =
     \<lparr>unchanged = count_class Is_unchanged html, changed = count_class Is_changed html,
      added = count_class Is_added html, removed = count_class Is_removed html\<rparr>"

text \<open>\<^verbatim>\<open>round((stats["unchanged"] / baseline_total) * 100) if baseline_total else 100\<close>.\<close>

definition match_percent :: "stats \<Rightarrow> int" where
  "match_percent st =
     (let baseline_total = unchanged st + changed st + removed st
      in if baseline_total \<noteq> 0
         then rne (fl (fl (of_nat (unchanged st) / of_nat baseline_total) * 100))
         else 100)"

datatype verdict = COMPLIANT | PARTIALLY_COMPLIANT | NON_COMPLIANT

definition audit_results :: "stats \<Rightarrow> verdict \<times> nat" where
  "audit_results st =
     (if changed st = 0 \<and> removed st = 0 then (COMPLIANT, 1)
      else if 80 \<le> match_percent st then (PARTIALLY_COMPLIANT, 4)
      else (NON_COMPLIANT, 3))"

text \<open>
  \<^verbatim>\<open>handle_initial\<close> from the point where \<^verbatim>\<open>load_template\<close> has returned the template
  text \<^verbatim>\<open>base_cfg\<close>; the device output is the target.  An exception of the renderer is
  caught and reported with status 5, here \<open>Inl\<close>; otherwise the verdict with its status
  and the counts are returned.
\<close>

definition handle_initial :: "str \<Rightarrow> str \<Rightarrow> error + (verdict \<times> nat) \<times> stats" where
  "handle_initial output base_cfg =
     (case render (compare output base_cfg) of
        Inl e \<Rightarrow> Inl e
      | Inr html \<Rightarrow> Inr (audit_results (stats_of html), stats_of html))"

section \<open>Auxiliary notions of the proofs\<close>

text \<open>
  What one iteration of the matcher guarantees about its record \<open>r\<close>, the target line
  \<open>consumed\<close> and the set of consumed lines before (\<open>used\<close>) and after (\<open>used'\<close>).
\<close>

definition line_ok :: "item list \<Rightarrow> nat set \<Rightarrow> item \<Rightarrow> nat set \<Rightarrow> nat option \<Rightarrow> diff_item \<Rightarrow> bool" where
  "line_ok target_parsed used base_item used' consumed r \<longleftrightarrow>
     string r = string base_item \<and> path r = path base_item \<and>
     is_parent r = is_parent base_item \<and> \<not> is_added r \<and>
     (case consumed of
        None \<Rightarrow> used' = used \<and> \<not> is_matched r \<and> best_match r = [] \<and>
          diff_positions r = [0..<length (string r)] \<and> similarity_score r < fl (6 / 10)
      | Some j \<Rightarrow> j < length target_parsed \<and> j \<notin> used \<and> used' = insert j used \<and>
          is_matched r \<and> path (target_parsed ! j) = path r \<and>
          best_match r = string (target_parsed ! j) \<and>
          diff_positions r = diff_of (string r) (best_match r) \<and>
          fl (6 / 10) \<le> similarity_score r \<and>
          (if is_parent r then similarity_score r = 1 \<and> best_match r = string r
           else similarity_score r = cisco_similarity (string r) (best_match r)))"

text \<open>The target lines consumed by the base records, in base order.\<close>

definition consumed_ids :: "(nat option \<times> diff_item) list \<Rightarrow> nat list" where
  "consumed_ids records = List.map_filter fst records"


text \<open>The records that \<^verbatim>\<open>_build_tree\<close> leaves out of the tree: unmatched parent lines.\<close>

definition excluded :: "diff_item \<Rightarrow> bool" where
  "excluded it \<longleftrightarrow> is_parent it \<and> \<not> is_matched it"

section \<open>Rounding is monotone\<close>

lemma rne_floor: "\<lfloor>x\<rfloor> \<le> rne x" "rne x \<le> \<lfloor>x\<rfloor> + 1"
  unfolding rne_def Let_def by auto

lemma rne_of_int: "rne (of_int k) = k"
  unfolding rne_def Let_def by simp

lemma rne_ge: "of_int k \<le> x \<Longrightarrow> k \<le> rne x"
proof -
  assume "of_int k \<le> x"
  then have "k \<le> \<lfloor>x\<rfloor>" by (simp add: le_floor_iff)
  with rne_floor(1) [of x] show ?thesis by linarith
qed

lemma rne_le:
  assumes "x \<le> of_int k"
  shows "rne x \<le> k"
proof (cases "x = of_int k")
  case True
  then show ?thesis by (simp add: rne_of_int)
next
  case False
  with assms have "x < of_int k" by simp
  then have "\<lfloor>x\<rfloor> < k" by (simp add: floor_less_iff)
  with rne_floor(2) [of x] show ?thesis by linarith
qed

lemma rne_mono:
  assumes "x \<le> y"
  shows "rne x \<le> rne y"
proof (cases "\<lfloor>x\<rfloor> = \<lfloor>y\<rfloor>")
  case True
  with assms show ?thesis unfolding rne_def Let_def by auto
next
  case False
  with assms have "\<lfloor>x\<rfloor> < \<lfloor>y\<rfloor>" using floor_mono [of x y] by linarith
  with rne_floor(2) [of x] rne_floor(1) [of y] show ?thesis by linarith
qed

lemma binade_lower: "- 1022 \<le> binade x" if "0 < x"
proof (cases "1 \<le> x")
  case True
  then have "0 < \<lfloor>x\<rfloor>" by simp
  then have "1 \<le> bitlen \<lfloor>x\<rfloor>" by (auto simp: bitlen_alt_def)
  with True show ?thesis by (simp add: binade_def)
next
  case False
  then show ?thesis by (simp add: binade_def)
qed

lemma binade_upper: "x < 2 powi (binade x + 1)" if "0 < x"
proof (cases "1 \<le> x")
  case True
  then have pos: "0 < \<lfloor>x\<rfloor>" by simp
  then have b1: "1 \<le> bitlen \<lfloor>x\<rfloor>" by (auto simp: bitlen_alt_def)
  from bitlen_bounds [OF pos] have "\<lfloor>x\<rfloor> < 2 ^ nat (bitlen \<lfloor>x\<rfloor>)" by simp
  then have "\<lfloor>x\<rfloor> + 1 \<le> 2 ^ nat (bitlen \<lfloor>x\<rfloor>)" by simp
  then have "(of_int (\<lfloor>x\<rfloor> + 1) :: rat) \<le> of_int (2 ^ nat (bitlen \<lfloor>x\<rfloor>))"
    by (simp only: of_int_le_iff)
  then have "of_int \<lfloor>x\<rfloor> + 1 \<le> (2::rat) ^ nat (bitlen \<lfloor>x\<rfloor>)" by simp
  moreover have "x < of_int \<lfloor>x\<rfloor> + 1" by linarith
  ultimately have "x < (2::rat) ^ nat (bitlen \<lfloor>x\<rfloor>)" by linarith
  moreover have "(2::rat) powi (binade x + 1) = 2 ^ nat (bitlen \<lfloor>x\<rfloor>)"
    using True b1 by (simp add: binade_def power_int_def)
  ultimately show ?thesis by simp
next
  case False
  define c where "c = \<lceil>1 / x\<rceil> - 1"
  define k where "k = bitlen c"
  from False that have "1 < 1 / x" by simp
  then have "1 < \<lceil>1 / x\<rceil>" by (simp add: less_ceiling_iff)
  then have cpos: "0 < c" by (simp add: c_def)
  then have k1: "1 \<le> k" by (auto simp: k_def bitlen_alt_def)
  have c_lt: "of_int c < 1 / x" unfolding c_def by linarith
  from bitlen_bounds [OF cpos] have "2 ^ nat (k - 1) \<le> c" by (simp add: k_def)
  then have "(of_int (2 ^ nat (k - 1)) :: rat) \<le> of_int c" by (simp only: of_int_le_iff)
  then have "(2::rat) ^ nat (k - 1) \<le> of_int c" by simp
  with c_lt have "(2::rat) ^ nat (k - 1) < 1 / x" by linarith
  then have "x * 2 ^ nat (k - 1) < 1" using that by (simp add: field_simps)
  then have xlt: "x < 1 / 2 ^ nat (k - 1)" by (simp add: field_simps)
  have bin: "binade x = max (- 1022) (- k)" using False by (simp add: binade_def c_def k_def)
  have "(1::rat) / 2 ^ nat (k - 1) = 2 powi (- k + 1)"
    using k1 by (auto simp: power_int_def field_simps nat_diff_distrib)
  also have "\<dots> \<le> 2 powi (binade x + 1)"
    unfolding bin by (rule power_int_increasing) auto
  finally show ?thesis using xlt by linarith
qed

lemma binade_normal: "2 powi (binade x) \<le> x" if "0 < x" "- 1022 < binade x"
proof (cases "1 \<le> x")
  case True
  then have pos: "0 < \<lfloor>x\<rfloor>" by simp
  then have b1: "1 \<le> bitlen \<lfloor>x\<rfloor>" by (auto simp: bitlen_alt_def)
  from bitlen_bounds [OF pos] have "2 ^ nat (bitlen \<lfloor>x\<rfloor> - 1) \<le> \<lfloor>x\<rfloor>" by simp
  then have "(of_int (2 ^ nat (bitlen \<lfloor>x\<rfloor> - 1)) :: rat) \<le> of_int \<lfloor>x\<rfloor>"
    by (simp only: of_int_le_iff)
  then have "(2::rat) ^ nat (bitlen \<lfloor>x\<rfloor> - 1) \<le> x" by (simp add: le_floor_iff)
  moreover have "(2::rat) powi (binade x) = 2 ^ nat (bitlen \<lfloor>x\<rfloor> - 1)"
    using True b1 by (simp add: binade_def power_int_def)
  ultimately show ?thesis by simp
next
  case False
  define c where "c = \<lceil>1 / x\<rceil> - 1"
  define k where "k = bitlen c"
  from False that have "1 < 1 / x" by simp
  then have "1 < \<lceil>1 / x\<rceil>" by (simp add: less_ceiling_iff)
  then have cpos: "0 < c" by (simp add: c_def)
  have bin: "binade x = max (- 1022) (- k)" using False by (simp add: binade_def c_def k_def)
  with that have bk: "binade x = - k" by linarith
  from bitlen_bounds [OF cpos] have "c < 2 ^ nat k" by (simp add: k_def)
  then have "c + 1 \<le> 2 ^ nat k" by simp
  then have "(of_int (c + 1) :: rat) \<le> of_int (2 ^ nat k)" by (simp only: of_int_le_iff)
  moreover have "1 / x \<le> of_int (c + 1)" unfolding c_def by simp
  ultimately have "1 / x \<le> (2::rat) ^ nat k" by simp
  then have "1 \<le> x * 2 ^ nat k" using that by (simp add: field_simps)
  then have "1 / 2 ^ nat k \<le> x" by (simp add: field_simps)
  moreover have "(2::rat) powi (binade x) = 1 / 2 ^ nat k"
    unfolding bk using bitlen_nonneg [of c] by (auto simp: power_int_def k_def field_simps)
  ultimately show ?thesis by simp
qed

lemma binade_mono: "binade x \<le> binade y" if "0 < x" "x \<le> y"
proof (rule ccontr)
  assume "\<not> binade x \<le> binade y"
  then have lt: "binade y + 1 \<le> binade x" by simp
  from that have ypos: "0 < y" by simp
  from lt binade_lower [OF ypos] have "- 1022 < binade x" by simp
  from binade_normal [OF that(1) this] have "2 powi (binade x) \<le> x" .
  moreover have "(2::rat) powi (binade y + 1) \<le> 2 powi (binade x)"
    using lt by (rule power_int_increasing) simp
  moreover note binade_upper [OF ypos] that(2)
  ultimately show False by linarith
qed

lemma fl_nonneg: "0 \<le> fl x" if "0 \<le> x"
proof (cases "x = 0")
  case True
  then show ?thesis by (simp add: fl_def)
next
  case False
  with that have xpos: "0 < x" by simp
  have "0 \<le> rne (x / 2 powi (binade x - 52))"
    by (rule rne_ge) (use xpos in simp)
  then show ?thesis using xpos by (simp add: fl_def Let_def)
qed

lemma fl_mono: "fl x \<le> fl y" if "0 \<le> x" "x \<le> y"
proof (cases "x = 0")
  case True
  with that fl_nonneg [of y] show ?thesis by (simp add: fl_def)
next
  case False
  with that have xpos: "0 < x" and ypos: "0 < y" by simp_all
  define ux :: rat where "ux = 2 powi (binade x - 52)"
  define uy :: rat where "uy = 2 powi (binade y - 52)"
  have ux0: "0 < ux" and uy0: "0 < uy" by (simp_all add: ux_def uy_def)
  have flx: "fl x = of_int (rne (x / ux)) * ux"
    using xpos by (simp add: fl_def Let_def ux_def)
  have fly: "fl y = of_int (rne (y / uy)) * uy"
    using ypos by (simp add: fl_def Let_def uy_def)
  show ?thesis
  proof (cases "binade x = binade y")
    case True
    then have "ux = uy" by (simp add: ux_def uy_def)
    moreover have "rne (x / uy) \<le> rne (y / uy)"
      by (rule rne_mono) (use that uy0 in \<open>simp add: divide_right_mono\<close>)
    ultimately show ?thesis using uy0 by (simp add: flx fly)
  next
    case False
    with binade_mono [OF xpos that(2)] have lt: "binade x + 1 \<le> binade y" by simp
    with binade_lower [OF xpos] have ynorm: "- 1022 < binade y" by simp
    have "x / ux < 2 powi (binade x + 1) / ux"
      using binade_upper [OF xpos] ux0 by (simp add: divide_strict_right_mono)
    also have "(2::rat) powi (binade x + 1) / ux = 2 powi 53"
      unfolding ux_def by (simp flip: power_int_diff)
    finally have "x / ux \<le> of_int (2 ^ 53)" by simp
    then have "rne (x / ux) \<le> 2 ^ 53" by (rule rne_le)
    then have "(of_int (rne (x / ux)) :: rat) \<le> of_int (2 ^ 53)" by (simp only: of_int_le_iff)
    then have "fl x \<le> 2 ^ 53 * ux" using ux0 by (simp add: flx)
    also have "\<dots> = 2 powi (binade x + 1)"
      unfolding ux_def by (simp add: power_int_add power_int_diff)
    also have "\<dots> \<le> 2 powi (binade y)"
      using lt by (rule power_int_increasing) simp
    also have "\<dots> = 2 ^ 52 * uy"
      unfolding uy_def by (simp add: power_int_diff)
    also have "\<dots> \<le> fl y"
    proof -
      have "2 powi (binade y) / uy \<le> y / uy"
        using binade_normal [OF ypos ynorm] uy0 by (simp add: divide_right_mono)
      moreover have "(2::rat) powi (binade y) / uy = 2 powi 52"
        unfolding uy_def by (simp flip: power_int_diff)
      ultimately have "of_int (2 ^ 52) \<le> y / uy" by simp
      then have "2 ^ 52 \<le> rne (y / uy)" by (rule rne_ge)
      then have "(of_int (2 ^ 52) :: rat) \<le> of_int (rne (y / uy))" by (simp only: of_int_le_iff)
      then show ?thesis using uy0 by (simp add: fly)
    qed
    finally show ?thesis .
  qed
qed


section \<open>The float constants of the program\<close>

lemma fl_0: "fl 0 = 0"
  by (simp add: fl_def)

lemma fl_1: "fl 1 = 1"
  by code_simp

text \<open>The literals \<^verbatim>\<open>0.7\<close>, \<^verbatim>\<open>0.3\<close> and \<^verbatim>\<open>0.6\<close> as binary64 numbers.\<close>

lemma fl_literals:
  "fl (7 / 10) = 3152519739159347 / 4503599627370496"
  "fl (3 / 10) = 5404319552844595 / 18014398509481984"
  "fl (6 / 10) = 5404319552844595 / 9007199254740992"
  by code_simp+

lemma fl_weights_1: "fl (fl (fl (7 / 10)) + fl (fl (3 / 10))) = 1"
  by code_simp

lemma fl_le_1: "0 \<le> x \<Longrightarrow> x \<le> 1 \<Longrightarrow> fl x \<le> 1"
  using fl_mono [of x 1] by (simp add: fl_1)

section \<open>Bounds of the similarity\<close>

lemma left_prefix_similarity_bounds:
  "0 \<le> left_prefix_similarity a b" "left_prefix_similarity a b \<le> 1"
proof -
  define ta tb where "ta = split_ws a" and "tb = split_ws b"
  define m where "m = length (takeWhile (\<lambda>(x, y). x = y) (zip ta tb))"
  define n where "n = max (length ta) (length tb)"
  have "m \<le> length (zip ta tb)" unfolding m_def by (rule length_takeWhile_le)
  then have mn: "m \<le> n" by (auto simp: n_def)
  have eq: "left_prefix_similarity a b = (if n = 0 then 0 else fl (of_nat m / of_nat n))"
    by (simp add: left_prefix_similarity_def Let_def ta_def tb_def m_def n_def)
  have q0: "0 \<le> (of_nat m / of_nat n :: rat)" by simp
  have q1: "(of_nat m / of_nat n :: rat) \<le> 1" if "n \<noteq> 0"
    using mn that by (simp add: divide_le_eq_1)
  show "0 \<le> left_prefix_similarity a b" unfolding eq using fl_nonneg [OF q0] by simp
  show "left_prefix_similarity a b \<le> 1" unfolding eq using fl_le_1 [OF q0 q1] by simp
qed

lemma token_jaccard_bounds:
  "0 \<le> token_jaccard a b" "token_jaccard a b \<le> 1"
proof -
  define A B where "A = set (split_ws a)" and "B = set (split_ws b)"
  have fin: "finite (A \<union> B)" by (simp add: A_def B_def)
  have le: "card (A \<inter> B) \<le> card (A \<union> B)"
    by (rule card_mono [OF fin]) auto
  have eq: "token_jaccard a b =
      (if A = {} \<and> B = {} then 1 else fl (of_nat (card (A \<inter> B)) / of_nat (card (A \<union> B))))"
    by (simp add: token_jaccard_def Let_def A_def B_def)
  have q0: "0 \<le> (of_nat (card (A \<inter> B)) / of_nat (card (A \<union> B)) :: rat)" by simp
  have q1: "(of_nat (card (A \<inter> B)) / of_nat (card (A \<union> B)) :: rat) \<le> 1"
    using le by (cases "card (A \<union> B) = 0") (simp_all add: divide_le_eq_1)
  show "0 \<le> token_jaccard a b" unfolding eq using fl_nonneg [OF q0] by simp
  show "token_jaccard a b \<le> 1" unfolding eq using fl_le_1 [OF q0 q1] by simp
qed


lemma weighted_le_1: "fl (fl (fl (7 / 10) * p) + fl (fl (3 / 10) * q)) \<le> 1"
  if "0 \<le> p" "p \<le> 1" "0 \<le> q" "q \<le> 1"
proof -
  have w: "0 \<le> fl (7 / 10)" "0 \<le> fl (3 / 10)" by (simp_all add: fl_nonneg)
  have "fl (fl (7 / 10) * p) \<le> fl (fl (7 / 10) * 1)"
    by (rule fl_mono) (use w that in \<open>simp_all add: mult_left_le\<close>)
  moreover have "fl (fl (3 / 10) * q) \<le> fl (fl (3 / 10) * 1)"
    by (rule fl_mono) (use w that in \<open>simp_all add: mult_left_le\<close>)
  moreover have "0 \<le> fl (fl (7 / 10) * p)" "0 \<le> fl (fl (3 / 10) * q)"
    using w that by (simp_all add: fl_nonneg)
  ultimately have "fl (fl (fl (7 / 10) * p) + fl (fl (3 / 10) * q))
      \<le> fl (fl (fl (7 / 10) * 1) + fl (fl (3 / 10) * 1))"
    by (intro fl_mono) simp_all
  then show ?thesis by (simp add: fl_weights_1)
qed


lemma cisco_similarity_le_1: "cisco_similarity a b \<le> 1"
  unfolding cisco_similarity_def Let_def
  by (simp add: weighted_le_1 left_prefix_similarity_bounds token_jaccard_bounds)

lemma takeWhile_zip_same: "takeWhile (\<lambda>(x, y). x = y) (zip ts ts) = zip ts ts"
  by (induction ts) simp_all

lemma cisco_similarity_same_tokens:
  assumes "split_ws a = split_ws b" "split_ws a \<noteq> []"
  shows "cisco_similarity a b = 1"
proof -
  have p: "left_prefix_similarity a b = 1"
    using assms by (simp add: left_prefix_similarity_def Let_def takeWhile_zip_same fl_1)
  have "card (set (split_ws b)) \<noteq> 0" using assms by simp
  then have q: "token_jaccard a b = 1"
    using assms by (simp add: token_jaccard_def Let_def fl_1)
  show ?thesis
    using assms by (simp add: cisco_similarity_def Let_def p q fl_weights_1)
qed

section \<open>The candidate loop\<close>

lemma in_candidates:
  "c \<in> set (candidates target_parsed used p) \<longleftrightarrow>
     fst c < length target_parsed \<and> snd c = target_parsed ! fst c \<and>
     path (snd c) = p \<and> fst c \<notin> used"
  by (cases c) (auto simp: candidates_def in_set_enumerate_eq)

lemma distinct_candidates: "distinct (map fst (candidates target_parsed used p))"
  unfolding candidates_def by (rule distinct_map_filter) simp

lemma find_best_parent:
  "find_best True s cs (b0, s0) =
     (case find (\<lambda>c. string (snd c) = s) cs of None \<Rightarrow> (b0, s0) | Some c \<Rightarrow> (Some c, 1))"
  by (induction cs) (simp_all add: Let_def)

lemma find_best_nonparent:
  "find_best False s cs (b0, s0) = (b, m) \<Longrightarrow>
     ((b, m) = (b0, s0) \<and> (\<forall>c\<in>set cs. cisco_similarity s (string (snd c)) \<le> s0)) \<or>
     (\<exists>pre c post. cs = pre @ c # post \<and> b = Some c \<and> m = cisco_similarity s (string (snd c)) \<and>
        s0 < m \<and>
        (\<forall>c'\<in>set pre. cisco_similarity s (string (snd c')) < m) \<and>
        (\<forall>c'\<in>set post. cisco_similarity s (string (snd c')) \<le> m))"
proof (induction cs arbitrary: b0 s0)
  case Nil
  then show ?case by simp
next
  case (Cons x cs)
  let ?sc = "\<lambda>c. cisco_similarity s (string (snd c))"
  show ?case
  proof (cases "s0 < ?sc x")
    case True
    with Cons.prems have "find_best False s cs (Some x, ?sc x) = (b, m)" by (simp add: Let_def)
    from Cons.IH [OF this] show ?thesis
    proof (elim disjE conjE exE)
      assume "(b, m) = (Some x, ?sc x)" "\<forall>c\<in>set cs. ?sc c \<le> ?sc x"
      with True have "x # cs = [] @ x # cs \<and> b = Some x \<and> m = ?sc x \<and> s0 < m \<and>
        (\<forall>c'\<in>set []. ?sc c' < m) \<and> (\<forall>c'\<in>set cs. ?sc c' \<le> m)" by simp
      then show ?thesis by blast
    next
      fix pre c post
      assume *: "cs = pre @ c # post" "b = Some c" "m = ?sc c" "?sc x < m"
        "\<forall>c'\<in>set pre. ?sc c' < m" "\<forall>c'\<in>set post. ?sc c' \<le> m"
      with True have "x # cs = (x # pre) @ c # post \<and> b = Some c \<and> m = ?sc c \<and> s0 < m \<and>
        (\<forall>c'\<in>set (x # pre). ?sc c' < m) \<and> (\<forall>c'\<in>set post. ?sc c' \<le> m)" by auto
      then show ?thesis by blast
    qed
  next
    case False
    with Cons.prems have "find_best False s cs (b0, s0) = (b, m)" by (simp add: Let_def)
    from Cons.IH [OF this] show ?thesis
    proof (elim disjE conjE exE)
      assume "(b, m) = (b0, s0)" "\<forall>c\<in>set cs. ?sc c \<le> s0"
      with False show ?thesis by auto
    next
      fix pre c post
      assume *: "cs = pre @ c # post" "b = Some c" "m = ?sc c" "s0 < m"
        "\<forall>c'\<in>set pre. ?sc c' < m" "\<forall>c'\<in>set post. ?sc c' \<le> m"
      with False have "x # cs = (x # pre) @ c # post \<and> b = Some c \<and> m = ?sc c \<and> s0 < m \<and>
        (\<forall>c'\<in>set (x # pre). ?sc c' < m) \<and> (\<forall>c'\<in>set post. ?sc c' \<le> m)" by auto
      then show ?thesis by blast
    qed
  qed
qed

lemma find_best_mem:
  "find_best ip s cs (b0, s0) = (Some c, m) \<Longrightarrow> b0 = Some c \<or> c \<in> set cs"
  by (induction cs arbitrary: b0 s0) (auto simp: Let_def split: if_splits)

lemma best_of_mem:
  assumes "best_of target_parsed used base_item = (Some c, m)"
  shows "c \<in> set (candidates target_parsed used (path base_item))"
  using find_best_mem [OF assms [unfolded best_of_def]] by simp

section \<open>One iteration of the matcher\<close>

lemma compare_line_unmatched:
  assumes "best_of target_parsed used base_item = (best, sc)"
    and "\<not> (best \<noteq> None \<and> fl (6 / 10) \<le> sc)"
  shows "compare_line target_parsed used base_item =
    (used, None,
     \<lparr>string = string base_item, path = path base_item, is_parent = is_parent base_item,
      best_match = [], similarity_score = sc, is_matched = False,
      diff_positions = [0..<length (string base_item)], is_added = False\<rparr>)"
  using assms by (auto simp: compare_line_def Let_def)

lemma compare_line_matched:
  assumes "best_of target_parsed used base_item = (Some c, sc)"
    and "fl (6 / 10) \<le> sc"
  shows "compare_line target_parsed used base_item =
    (insert (fst c) used, Some (fst c),
     \<lparr>string = string base_item, path = path base_item, is_parent = is_parent base_item,
      best_match = string (snd c), similarity_score = sc, is_matched = True,
      diff_positions = diff_of (string base_item) (string (snd c)), is_added = False\<rparr>)"
  using assms by (simp add: compare_line_def Let_def)

lemma best_of_score:
  assumes "best_of target_parsed used base_item = (best, sc)"
  shows "(best = None \<longrightarrow> sc = - 1) \<and>
         (\<forall>c. best = Some c \<longrightarrow>
            (if is_parent base_item then sc = 1 \<and> string (snd c) = string base_item
             else sc = cisco_similarity (string base_item) (string (snd c))))"
proof (cases "is_parent base_item")
  case True
  show ?thesis
  proof (cases "find (\<lambda>c. string (snd c) = string base_item)
                  (candidates target_parsed used (path base_item))")
    case None
    with assms True show ?thesis by (simp add: best_of_def find_best_parent)
  next
    case (Some c')
    then have eq: "string (snd c') = string base_item" by (auto simp: find_Some_iff)
    from Some assms True have "best = Some c'" "sc = 1"
      by (simp_all add: best_of_def find_best_parent)
    with eq True show ?thesis by simp
  qed
next
  case False
  with assms have "find_best False (string base_item)
      (candidates target_parsed used (path base_item)) (None, - 1) = (best, sc)"
    by (simp add: best_of_def)
  from find_best_nonparent [OF this] False show ?thesis by auto
qed

lemma fl_06_gt_m1: "- 1 < fl (6 / 10)"
  using fl_nonneg [of "6 / 10"] by simp

lemma compare_line_ok:
  assumes "compare_line target_parsed used base_item = (used', consumed, r)"
  shows "line_ok target_parsed used base_item used' consumed r"
proof -
  obtain best sc where b: "best_of target_parsed used base_item = (best, sc)"
    by (cases "best_of target_parsed used base_item")
  note score = best_of_score [OF b]
  show ?thesis
  proof (cases "best \<noteq> None \<and> fl (6 / 10) \<le> sc")
    case False
    with score fl_06_gt_m1 have "sc < fl (6 / 10)" by (cases best) auto
    with compare_line_unmatched [OF b False] assms show ?thesis
      by (auto simp: line_ok_def)
  next
    case True
    then obtain c where c: "best = Some c" by auto
    from best_of_mem [OF b [unfolded c]]
    have mem: "fst c < length target_parsed" "target_parsed ! fst c = snd c"
      "path (snd c) = path base_item" "fst c \<notin> used"
      by (auto simp: in_candidates)
    from score c have sc: "if is_parent base_item then sc = 1 \<and> string (snd c) = string base_item
       else sc = cisco_similarity (string base_item) (string (snd c))" by simp
    from compare_line_matched [OF b [unfolded c]] True assms mem sc show ?thesis
      by (auto simp: line_ok_def split: if_splits)
  qed
qed

section \<open>The loop over the base lines\<close>

lemma consumed_ids_simps:
  "consumed_ids [] = []"
  "consumed_ids ((None, r) # rs) = consumed_ids rs"
  "consumed_ids ((Some j, r) # rs) = j # consumed_ids rs"
  by (simp_all add: consumed_ids_def List.map_filter_simps)

lemma compare_base_inv:
  "compare_base target_parsed used base_parsed = (used', records) \<Longrightarrow>
     length records = length base_parsed \<and>
     (\<forall>i<length base_parsed. \<exists>u u'.
        line_ok target_parsed u (base_parsed ! i) u' (fst (records ! i)) (snd (records ! i))) \<and>
     distinct (consumed_ids records) \<and>
     set (consumed_ids records) \<inter> used = {} \<and>
     used' = used \<union> set (consumed_ids records) \<and>
     set (consumed_ids records) \<subseteq> {..<length target_parsed}"
proof (induction base_parsed arbitrary: used used' records)
  case Nil
  then show ?case by (simp add: consumed_ids_simps)
next
  case (Cons b bs)
  obtain u1 c r where step: "compare_line target_parsed used b = (u1, c, r)"
    by (cases "compare_line target_parsed used b") auto
  obtain u2 rs where rest: "compare_base target_parsed u1 bs = (u2, rs)"
    by (cases "compare_base target_parsed u1 bs")
  from Cons.prems step rest have res: "used' = u2" "records = (c, r) # rs" by simp_all
  note ok = compare_line_ok [OF step]
  note ih = Cons.IH [OF rest]
  have len: "length records = length (b # bs)" using ih res by simp
  have each: "\<forall>i<length (b # bs). \<exists>u u'.
      line_ok target_parsed u ((b # bs) ! i) u' (fst (records ! i)) (snd (records ! i))"
  proof (intro allI impI)
    fix i assume "i < length (b # bs)"
    then show "\<exists>u u'. line_ok target_parsed u ((b # bs) ! i) u' (fst (records ! i)) (snd (records ! i))"
      using ok ih res by (cases i) auto
  qed
  show ?case
  proof (cases c)
    case None
    with ok have "u1 = used" by (simp add: line_ok_def)
    with ih res None len each show ?thesis by (simp add: consumed_ids_simps)
  next
    case (Some j)
    with ok have j: "j < length target_parsed" "j \<notin> used" "u1 = insert j used"
      by (simp_all add: line_ok_def)
    from ih j have "j \<notin> set (consumed_ids rs)" by auto
    with ih res Some j len each show ?thesis by (auto simp: consumed_ids_simps)
  qed
qed

lemma filter_enumerate:
  "filter (\<lambda>(j, t). P j) (enumerate n xs) =
     map (\<lambda>j. (j, xs ! (j - n))) (filter P [n..<n + length xs])"
proof (induction xs arbitrary: n)
  case Nil
  then show ?case by simp
next
  case (Cons x xs)
  have upt: "[n..<n + length (x # xs)] = n # [Suc n..<Suc n + length xs]"
    by (subst upt_conv_Cons) simp_all
  have cong: "map (\<lambda>j. (j, xs ! (j - Suc n))) (filter P [Suc n..<Suc n + length xs]) =
      map (\<lambda>j. (j, (x # xs) ! (j - n))) (filter P [Suc n..<Suc n + length xs])"
    by (rule map_cong) (auto simp: Suc_diff_Suc less_eq_Suc_le)
  have "filter (\<lambda>(j, t). P j) (enumerate n (x # xs)) =
      (if P n then [(n, x)] else []) @ filter (\<lambda>(j, t). P j) (enumerate (Suc n) xs)"
    by simp
  also have "\<dots> = (if P n then [(n, x)] else []) @
      map (\<lambda>j. (j, (x # xs) ! (j - n))) (filter P [Suc n..<Suc n + length xs])"
    by (simp only: Cons.IH cong)
  also have "\<dots> = map (\<lambda>j. (j, (x # xs) ! (j - n))) (filter P (n # [Suc n..<Suc n + length xs]))"
    by simp
  finally show ?case by (simp only: upt)
qed

lemma added_records_eq:
  "added_records target_parsed used =
     map (\<lambda>j. added_record (target_parsed ! j)) (filter (\<lambda>j. j \<notin> used) [0..<length target_parsed])"
  using filter_enumerate [of "\<lambda>j. j \<notin> used" 0 target_parsed]
  by (simp add: added_records_def comp_def)

lemma fl_06_le_1: "fl (6 / 10) \<le> 1"
  by code_simp

lemma fl_06_pos: "0 < fl (6 / 10)"
  by code_simp










lemma length_parse_lines:
  "length (parse_lines st ls) = length (filter (\<lambda>l. strip l \<noteq> []) ls)"
  by (induction ls arbitrary: st) (simp_all add: Let_def)

text \<open>
  Claim C7 (empty inputs).  If the base text parses to no line, the comparison has one
  record per parsed target line and every record is \<open>Unmatched_Added\<close>; if the target
  text parses to no line, it has one record per parsed base line and every record is
  \<open>Unmatched_Removed\<close>.  The parser is a total function that yields one line for every
  non-blank line of any text, whatever its indentation; neither \<open>parse\<close> nor \<open>compare\<close>
  has a failing branch.
\<close>

theorem empty_inputs_degrade:
  "(parse base_cfg = [] \<longrightarrow>
      length (compare target_cfg base_cfg) = length (parse target_cfg) \<and>
      (\<forall>r\<in>set (compare target_cfg base_cfg). disposition r = Unmatched_Added)) \<and>
   (parse target_cfg = [] \<longrightarrow>
      length (compare target_cfg base_cfg) = length (parse base_cfg) \<and>
      (\<forall>r\<in>set (compare target_cfg base_cfg). disposition r = Unmatched_Removed)) \<and>
   length (parse cfg) = length (filter (\<lambda>l. strip l \<noteq> []) (splitlines cfg))"
proof (intro conjI impI)
  assume "parse base_cfg = []"
  then have eq: "compare target_cfg base_cfg = added_records (parse target_cfg) {}"
    by (simp add: compare_def compare_parsed_def)
  show "length (compare target_cfg base_cfg) = length (parse target_cfg)"
    unfolding eq by (simp add: added_records_eq)
  show "\<forall>r\<in>set (compare target_cfg base_cfg). disposition r = Unmatched_Added"
    unfolding eq by (auto simp: added_records_def added_record_def disposition_def)
next
  assume e: "parse target_cfg = []"
  obtain used records where cb: "compare_base [] {} (parse base_cfg) = (used, records)"
    by (cases "compare_base [] {} (parse base_cfg)")
  note inv = compare_base_inv [OF cb]
  have eq: "compare target_cfg base_cfg = map snd records"
    using e cb by (simp add: compare_def compare_parsed_def added_records_def)
  show "length (compare target_cfg base_cfg) = length (parse base_cfg)"
    unfolding eq using inv by simp
  show "\<forall>r\<in>set (compare target_cfg base_cfg). disposition r = Unmatched_Removed"
  proof
    fix r assume "r \<in> set (compare target_cfg base_cfg)"
    then obtain i where i: "i < length records" "r = snd (records ! i)"
      unfolding eq by (auto simp: in_set_conv_nth)
    with inv obtain u u' where "line_ok [] u (parse base_cfg ! i) u' (fst (records ! i)) r"
      by auto
    then show "disposition r = Unmatched_Removed"
      by (cases "fst (records ! i)") (auto simp: line_ok_def disposition_def)
  qed
next
  show "length (parse cfg) = length (filter (\<lambda>l. strip l \<noteq> []) (splitlines cfg))"
    by (simp add: parse_def length_parse_lines)
qed

section \<open>Evaluation on small inputs\<close>

lemma ascii_a: "ascii ''a'' = [97]"
  by (simp add: ascii_def)

lemma parse_empty: "parse [] = []"
  by (simp add: parse_def splitlines_def)

lemma strip_a: "strip [97] = [97]"
  by (simp add: strip_def is_space_def)

lemma parse_a: "parse [97] = [\<lparr>string = [97], path = [], is_parent = False\<rparr>]"
  by (simp add: parse_def splitlines_def is_linebreak_def strip_a indent_def lstrip_blank_def
      pop_stack_def)

lemma split_ws_a: "split_ws [97] = [[97]]"
  by (simp add: split_ws_def is_space_def)

lemma sim_a_a: "cisco_similarity [97] [97] = 1"
  by (rule cisco_similarity_same_tokens) (simp_all add: split_ws_a)

lemma candidates_a:
  "candidates [\<lparr>string = [97], path = [], is_parent = p\<rparr>] {} [] =
     [(0, \<lparr>string = [97], path = [], is_parent = p\<rparr>)]"
  by (simp add: candidates_def)

lemma best_of_a:
  "best_of [\<lparr>string = [97], path = [], is_parent = p\<rparr>] {} \<lparr>string = [97], path = [], is_parent = q\<rparr> =
     (Some (0, \<lparr>string = [97], path = [], is_parent = p\<rparr>), 1)"
  by (cases q) (simp_all add: best_of_def candidates_a sim_a_a Let_def)

lemma diff_of_a: "diff_of [97] [97] = []"
  by (simp add: diff_of_def)

lemma compare_line_a:
  "compare_line [\<lparr>string = [97], path = [], is_parent = p\<rparr>] {} \<lparr>string = [97], path = [], is_parent = q\<rparr> =
     ({0}, Some 0,
      \<lparr>string = [97], path = [], is_parent = q, best_match = [97], similarity_score = 1,
       is_matched = True, diff_positions = [], is_added = False\<rparr>)"
  using compare_line_matched [OF best_of_a fl_06_le_1, of p q] by (simp add: diff_of_a)

lemma compare_base_a:
  "compare_base [\<lparr>string = [97], path = [], is_parent = False\<rparr>] {}
       [\<lparr>string = [97], path = [], is_parent = False\<rparr>] =
     ({0}, [(Some 0,
      \<lparr>string = [97], path = [], is_parent = False, best_match = [97], similarity_score = 1,
       is_matched = True, diff_positions = [], is_added = False\<rparr>)])"
  by (simp add: compare_line_a)







theorem empty_inputs_degrade_witness:
  "parse [] = [] \<and>
   length (compare [97] []) = 1 \<and> disposition (compare [97] [] ! 0) = Unmatched_Added \<and>
   length (compare [] [97]) = 1 \<and> disposition (compare [] [97] ! 0) = Unmatched_Removed"
proof -
  have l: "length (parse [97]) = 1" by (simp add: parse_a)
  from empty_inputs_degrade [of "[]" "[97]" "[]"] l
  have a: "length (compare [97] []) = 1"
    "\<forall>r\<in>set (compare [97] []). disposition r = Unmatched_Added"
    by (simp_all add: parse_empty)
  from empty_inputs_degrade [of "[97]" "[]" "[]"] l
  have b: "length (compare [] [97]) = 1"
    "\<forall>r\<in>set (compare [] [97]). disposition r = Unmatched_Removed"
    by (simp_all add: parse_empty)
  from a have "disposition (compare [97] [] ! 0) = Unmatched_Added"
    by (metis nth_mem zero_less_one)
  moreover from b have "disposition (compare [] [97] ! 0) = Unmatched_Removed"
    by (metis nth_mem zero_less_one)
  ultimately show ?thesis using a b by (simp add: parse_empty)
qed

section \<open>Parsed lines have tokens\<close>

lemma strip_has_nonspace:
  assumes "strip l \<noteq> []"
  shows "\<exists>c\<in>set (strip l). \<not> is_space c"
proof -
  let ?ys = "dropWhile is_space (rev (dropWhile is_space l))"
  from assms have ne: "?ys \<noteq> []" by (simp add: strip_def)
  then have "\<not> is_space (hd ?ys)" by (rule hd_dropWhile)
  moreover from ne have "hd ?ys \<in> set (strip l)" by (simp add: strip_def)
  ultimately show ?thesis by blast
qed

lemma split_from_nonempty:
  "cur \<noteq> [] \<or> (\<exists>c\<in>set s. \<not> is_space c) \<Longrightarrow> split_from cur s \<noteq> []"
  by (induction s arbitrary: cur) auto

lemma split_ws_strip: "strip l \<noteq> [] \<Longrightarrow> split_ws (strip l) \<noteq> []"
  unfolding split_ws_def by (rule split_from_nonempty) (simp add: strip_has_nonspace)

lemma parse_lines_tokens:
  "it \<in> set (parse_lines st ls) \<Longrightarrow> split_ws (string it) \<noteq> []"
  by (induction ls arbitrary: st) (auto simp: Let_def split_ws_strip split: if_splits)

lemma parse_tokens: "it \<in> set (parse cfg) \<Longrightarrow> split_ws (string it) \<noteq> []"
  unfolding parse_def by (rule parse_lines_tokens)

section \<open>A configuration against itself\<close>

lemma find_best_keep_1: "find_best False s cs (b0, 1) = (b0, 1)"
proof (induction cs)
  case Nil
  then show ?case by simp
next
  case (Cons c cs)
  have "\<not> 1 < cisco_similarity s (string (snd c))"
    using cisco_similarity_le_1 [of s "string (snd c)"] by simp
  with Cons show ?case by (simp add: Let_def)
qed

lemma candidates_self:
  "\<exists>cs. candidates (pre @ b # rest) {..<length pre} (path b) = (length pre, b) # cs"
proof -
  have "filter (\<lambda>(j, c). path c = path b \<and> j \<notin> {..<length pre}) (enumerate 0 pre) = []"
    by (auto simp: filter_empty_conv in_set_enumerate_eq)
  then show ?thesis
    by (simp add: candidates_def enumerate_append_eq)
qed

lemma best_of_self:
  assumes "split_ws (string b) \<noteq> []"
  shows "best_of (pre @ b # rest) {..<length pre} b = (Some (length pre, b), 1)"
proof -
  from candidates_self obtain cs where
    cs: "candidates (pre @ b # rest) {..<length pre} (path b) = (length pre, b) # cs" by blast
  have "cisco_similarity (string b) (string b) = 1"
    using assms by (simp add: cisco_similarity_same_tokens)
  then show ?thesis
    by (cases "is_parent b") (simp_all add: best_of_def cs Let_def find_best_keep_1)
qed

lemma compare_base_self:
  assumes "\<forall>b\<in>set bs. split_ws (string b) \<noteq> []"
  shows "\<exists>records. compare_base (pre @ bs) {..<length pre} bs = ({..<length pre + length bs}, records) \<and>
           length records = length bs \<and>
           (\<forall>x\<in>set records. is_matched (snd x) \<and> similarity_score (snd x) = 1 \<and> \<not> is_added (snd x))"
  using assms
proof (induction bs arbitrary: pre)
  case Nil
  then show ?case by simp
next
  case (Cons b bs)
  from Cons.prems have tok: "split_ws (string b) \<noteq> []" by simp
  note step = compare_line_matched [OF best_of_self [OF tok, of pre bs] fl_06_le_1]
  from Cons.prems have "\<forall>b\<in>set bs. split_ws (string b) \<noteq> []" by simp
  from Cons.IH [OF this, of "pre @ [b]"] obtain records where
    rec: "compare_base (pre @ b # bs) {..<Suc (length pre)} bs = ({..<Suc (length pre) + length bs}, records)"
      "length records = length bs"
      "\<forall>x\<in>set records. is_matched (snd x) \<and> similarity_score (snd x) = 1 \<and> \<not> is_added (snd x)"
    by auto
  have ins: "insert (length pre) {..<length pre} = {..<Suc (length pre)}" by auto
  show ?case using rec by (simp add: step ins)
qed

text \<open>
  Claim C2 (a configuration against itself).  Comparing any configuration text with an
  identical copy yields one record per parsed line, and every record is
  \<open>Matched_Identical\<close>; so there is no \<open>Unmatched_Removed\<close> and no \<open>Unmatched_Added\<close> record.
\<close>

theorem self_diff_identical:
  "length (compare cfg cfg) = length (parse cfg) \<and>
   (\<forall>r\<in>set (compare cfg cfg). disposition r = Matched_Identical)"
proof -
  have "\<forall>b\<in>set (parse cfg). split_ws (string b) \<noteq> []" by (simp add: parse_tokens)
  from compare_base_self [OF this, of "[]"] obtain records where
    rec: "compare_base (parse cfg) {} (parse cfg) = ({..<length (parse cfg)}, records)"
      "length records = length (parse cfg)"
      "\<forall>x\<in>set records. is_matched (snd x) \<and> similarity_score (snd x) = 1 \<and> \<not> is_added (snd x)"
    by auto
  have "added_records (parse cfg) {..<length (parse cfg)} = []"
    by (simp add: added_records_eq filter_empty_conv)
  with rec(1) have eq: "compare cfg cfg = map snd records"
    by (simp add: compare_def compare_parsed_def)
  show ?thesis unfolding eq using rec(2,3) by (auto simp: disposition_def)
qed

theorem self_diff_identical_witness:
  "length (compare [97] [97]) = 1 \<and> disposition (compare [97] [97] ! 0) = Matched_Identical"
proof -
  from self_diff_identical [of "[97]"]
  have a: "length (compare [97] [97]) = 1"
    "\<forall>r\<in>set (compare [97] [97]). disposition r = Matched_Identical"
    by (simp_all add: parse_a)
  then have "disposition (compare [97] [97] ! 0) = Matched_Identical"
    by (metis nth_mem zero_less_one)
  with a show ?thesis by simp
qed

section \<open>Scenario: a changed BGP neighbour\<close>

lemma fl_34: "fl (3 / 4) = 3 / 4"
  by code_simp

lemma fl_35: "fl (3 / 5) = 5404319552844595 / 9007199254740992"
  by code_simp

lemma fl_bgp_score:
  "fl (fl (fl (7 / 10) * (3 / 4)) + fl (fl (3 / 10) * fl (3 / 5))) =
     3175037737296199 / 4503599627370496"
  by code_simp

lemma split_ws_neighbor_1:
  "split_ws (ascii ''neighbor 10.0.0.1 remote-as 65001'') =
     [ascii ''neighbor'', ascii ''10.0.0.1'', ascii ''remote-as'', ascii ''65001'']"
  by (simp add: ascii_def split_ws_def is_space_def)

lemma split_ws_neighbor_2:
  "split_ws (ascii ''neighbor 10.0.0.1 remote-as 65002'') =
     [ascii ''neighbor'', ascii ''10.0.0.1'', ascii ''remote-as'', ascii ''65002'']"
  by (simp add: ascii_def split_ws_def is_space_def)

lemma prefix_neighbor:
  "left_prefix_similarity (ascii ''neighbor 10.0.0.1 remote-as 65001'')
     (ascii ''neighbor 10.0.0.1 remote-as 65002'') = 3 / 4"
  by (simp add: left_prefix_similarity_def split_ws_neighbor_1 split_ws_neighbor_2 Let_def fl_34)
     (simp add: ascii_def fl_34)

lemma jaccard_neighbor:
  "token_jaccard (ascii ''neighbor 10.0.0.1 remote-as 65001'')
     (ascii ''neighbor 10.0.0.1 remote-as 65002'') = fl (3 / 5)"
  by (simp add: token_jaccard_def split_ws_neighbor_1 split_ws_neighbor_2 Let_def)
     (simp add: ascii_def card_insert_if)

lemma similarity_neighbor:
  "cisco_similarity (ascii ''neighbor 10.0.0.1 remote-as 65001'')
     (ascii ''neighbor 10.0.0.1 remote-as 65002'') = 3175037737296199 / 4503599627370496"
proof -
  have "cisco_similarity (ascii ''neighbor 10.0.0.1 remote-as 65001'')
      (ascii ''neighbor 10.0.0.1 remote-as 65002'') =
      fl (fl (fl (7 / 10) * (3 / 4)) + fl (fl (3 / 10) * fl (3 / 5)))"
    unfolding cisco_similarity_def prefix_neighbor jaccard_neighbor
      split_ws_neighbor_1 split_ws_neighbor_2 Let_def
    by simp
  then show ?thesis by (simp only: fl_bgp_score)
qed

lemma parse_bgp_1:
  "parse (ascii ''router bgp 65000'' @ [10] @ ascii '' neighbor 10.0.0.1 remote-as 65001'') =
     [\<lparr>string = ascii ''router bgp 65000'', path = [], is_parent = True\<rparr>,
      \<lparr>string = ascii ''neighbor 10.0.0.1 remote-as 65001'', path = ascii ''router bgp 65000'',
        is_parent = False\<rparr>]"
  by (simp add: ascii_def parse_def splitlines_def is_linebreak_def strip_def is_space_def
      indent_def lstrip_blank_def pop_stack_def Let_def)

lemma parse_bgp_2:
  "parse (ascii ''router bgp 65000'' @ [10] @ ascii '' neighbor 10.0.0.1 remote-as 65002'') =
     [\<lparr>string = ascii ''router bgp 65000'', path = [], is_parent = True\<rparr>,
      \<lparr>string = ascii ''neighbor 10.0.0.1 remote-as 65002'', path = ascii ''router bgp 65000'',
        is_parent = False\<rparr>]"
  by (simp add: ascii_def parse_def splitlines_def is_linebreak_def strip_def is_space_def
      indent_def lstrip_blank_def pop_stack_def Let_def)

lemma ascii_router_nonempty: "ascii ''router bgp 65000'' \<noteq> []"
  by (simp add: ascii_def)

lemma compare_bgp:
  "map disposition
     (compare (ascii ''router bgp 65000'' @ [10] @ ascii '' neighbor 10.0.0.1 remote-as 65002'')
        (ascii ''router bgp 65000'' @ [10] @ ascii '' neighbor 10.0.0.1 remote-as 65001'')) =
     [Matched_Identical, Matched_Changed]"
  unfolding compare_def parse_bgp_1 parse_bgp_2
  by (simp add: compare_parsed_def compare_line_def best_of_def candidates_def Let_def
      similarity_neighbor added_records_def disposition_def ascii_router_nonempty fl_35)

text \<open>
  Claim C9 (scenario 5).  The base is the parent \<^verbatim>\<open>router bgp 65000\<close> with the child
  \<^verbatim>\<open>neighbor 10.0.0.1 remote-as 65001\<close>, the target the same parent with the child
  \<^verbatim>\<open>neighbor 10.0.0.1 remote-as 65002\<close>.  The parent record is \<open>Matched_Identical\<close> and the
  child record \<open>Matched_Changed\<close>: the prefix similarity of the two children is \<open>3 / 4\<close>,
  their token overlap the float \<open>0.6\<close>, and the composite \<open>0.7 * 0.75 + 0.3 * 0.6\<close>,
  computed in floats, is at least the threshold \<open>0.6\<close> and below \<open>1\<close>.
\<close>

theorem scenario_bgp_neighbor:
  "map disposition
     (compare (ascii ''router bgp 65000'' @ [10] @ ascii '' neighbor 10.0.0.1 remote-as 65002'')
        (ascii ''router bgp 65000'' @ [10] @ ascii '' neighbor 10.0.0.1 remote-as 65001'')) =
     [Matched_Identical, Matched_Changed] \<and>
   left_prefix_similarity (ascii ''neighbor 10.0.0.1 remote-as 65001'')
     (ascii ''neighbor 10.0.0.1 remote-as 65002'') = 3 / 4 \<and>
   token_jaccard (ascii ''neighbor 10.0.0.1 remote-as 65001'')
     (ascii ''neighbor 10.0.0.1 remote-as 65002'') = fl (3 / 5) \<and>
   cisco_similarity (ascii ''neighbor 10.0.0.1 remote-as 65001'')
     (ascii ''neighbor 10.0.0.1 remote-as 65002'') =
     fl (fl (fl (7 / 10) * (3 / 4)) + fl (fl (3 / 10) * fl (3 / 5))) \<and>
   fl (6 / 10) \<le> cisco_similarity (ascii ''neighbor 10.0.0.1 remote-as 65001'')
     (ascii ''neighbor 10.0.0.1 remote-as 65002'') \<and>
   cisco_similarity (ascii ''neighbor 10.0.0.1 remote-as 65001'')
     (ascii ''neighbor 10.0.0.1 remote-as 65002'') < 1"
  unfolding compare_bgp prefix_neighbor jaccard_neighbor similarity_neighbor fl_bgp_score
  by (simp add: fl_35)

section \<open>Scenario: two lines that differ in white space only\<close>






section \<open>Score 1 means equal tokens\<close>









section \<open>Dictionaries\<close>

lemma map_of_dict_set: "map_of (dict_set k v d) k' = (if k' = k then Some v else map_of d k')"
  by (induction d) auto



lemma records_at_empty: "records_at ks (Node []) = []"
  by (cases ks) simp_all



section \<open>Placing one record\<close>

lemma place_Items: "place ks it (Items l) = Inr t' \<Longrightarrow> t' = Items l \<and> ks = [] \<and> excluded it"
  by (cases ks) (auto simp: excluded_def split: if_splits)

lemma place_Node: "place ks it (Node d) = Inr t' \<Longrightarrow> \<exists>d'. t' = Node d'"
  by (cases ks) (auto split: if_splits tree.splits sum.splits)



lemma records_at_dict_set_other:
  "ks \<noteq> [] \<Longrightarrow> hd ks \<noteq> k \<Longrightarrow> records_at ks (Node (dict_set k v d)) = records_at ks (Node d)"
  by (cases ks) (simp_all add: map_of_dict_set)

lemma place_records_at:
  "place ks it t = Inr t' \<Longrightarrow>
     records_at ks' t' = (if ks' = ks \<and> \<not> excluded it then records_at ks' t @ [it] else records_at ks' t)"
proof (induction ks arbitrary: t t' ks')
  case Nil
  show ?case
  proof (cases t)
    case (Items l)
    with Nil show ?thesis by (auto simp: excluded_def split: if_splits)
  next
    case (Node d)
    show ?thesis
    proof (cases "excluded it")
      case True
      with Nil Node show ?thesis by (simp add: excluded_def)
    next
      case False
      with Nil Node obtain l where
        l: "setdefault d root_items (Items []) = Items l"
        and t': "t' = Node (dict_set root_items (Items (l @ [it])) d)"
        by (auto simp: excluded_def split: tree.splits)
      from l have old: "records_at [] (Node d) = l"
        by (auto simp: setdefault_def split: option.splits)
      from l have through: "records_at (root_items # ps) (Node d) = []" for ps
        by (auto simp: setdefault_def split: option.splits)
      show ?thesis
      proof (cases ks')
        case Nil
        with False Node t' old show ?thesis by (simp add: map_of_dict_set)
      next
        case (Cons p ps)
        with False Node t' through show ?thesis by (auto simp: map_of_dict_set)
      qed
    qed
  qed
next
  case (Cons part parts)
  show ?case
  proof (cases t)
    case (Items l)
    with Cons.prems show ?thesis by simp
  next
    case (Node d)
    let ?sub = "setdefault d part (Node [])"
    from Cons.prems Node obtain sub' where
      sub': "place parts it ?sub = Inr sub'" and t': "t' = Node (dict_set part sub' d)"
      by (auto split: sum.splits)
    note ih = Cons.IH [OF sub']
    show ?thesis
    proof (cases ks')
      case Nil
      show ?thesis
      proof (cases "part = root_items")
        case False
        with Nil Node t' show ?thesis by (simp add: map_of_dict_set)
      next
        case True
        show ?thesis
        proof (cases ?sub)
          case (Items l)
          with place_Items [OF sub' [unfolded Items]] have "sub' = ?sub" by simp
          with Nil Node t' True Items show ?thesis
            by (auto simp: map_of_dict_set setdefault_def split: option.splits)
        next
          case sub: (Node ds)
          from place_Node [OF sub' [unfolded sub]] obtain ds' where "sub' = Node ds'" by blast
          with Nil Node t' True sub show ?thesis
            by (auto simp: map_of_dict_set setdefault_def split: option.splits tree.splits)
        qed
      qed
    next
      case ks': (Cons p ps)
      show ?thesis
      proof (cases "p = part")
        case False
        with ks' Node t' show ?thesis by (simp add: map_of_dict_set)
      next
        case True
        have a: "records_at ks' t = records_at ps ?sub"
          using True Node ks'
          by (auto simp: setdefault_def records_at_empty split: option.splits)
        have b: "records_at ks' t' = records_at ps sub'"
          using True t' ks' by (simp add: map_of_dict_set)
        have c: "(ks' = part # parts) = (ps = parts)" using ks' True by simp
        show ?thesis unfolding a b c by (rule ih)
      qed
    qed
  qed
qed

section \<open>Building the tree\<close>

lemma build_tree_from_records_at:
  "build_tree_from t rs = Inr t' \<Longrightarrow>
     records_at ks t' = records_at ks t @ filter (\<lambda>r. key_path r = ks \<and> \<not> excluded r) rs"
proof (induction rs arbitrary: t)
  case Nil
  then show ?case by simp
next
  case (Cons r rs)
  from Cons.prems obtain t1 where
    p: "place (key_path r) r t = Inr t1" and b: "build_tree_from t1 rs = Inr t'"
    by (auto split: sum.splits)
  from place_records_at [OF p, of ks] Cons.IH [OF b] show ?case by auto
qed

lemma join_Cons: "join sep (x # xs) = (if xs = [] then x else x @ sep @ join sep xs)"
  by (cases xs) simp_all

lemma split_delim_from_nonempty: "split_delim_from cur s \<noteq> []"
  by (induction s arbitrary: cur) simp_all

lemma join_split_delim_from: "join DELIM (split_delim_from cur s) = cur @ s"
proof (induction s arbitrary: cur)
  case Nil
  then show ?case by simp
next
  case (Cons c cs)
  show ?case
  proof (cases "[c] = DELIM")
    case True
    with Cons [of "[]"] show ?thesis
      by (simp add: join_Cons split_delim_from_nonempty)
  next
    case False
    with Cons [of "cur @ [c]"] show ?thesis by simp
  qed
qed

lemma join_key_path: "join DELIM (key_path r) = path r"
  by (simp add: key_path_def split_delim_def join_split_delim_from)

text \<open>
  Claim C4 (tree placement), as amended.  Whenever the tree builder returns a tree, the
  record list of the node with key path \<open>ks\<close> consists of exactly the records whose path
  splits into \<open>ks\<close> and that are not unmatched parent headers, in the order of the flat
  record set; so each such record is in one node only, the node of its path.  A parent
  header that is not matched, be it removed or added, is in no node.  The path of every
  record in a node is the node's key path joined by the delimiter.
\<close>

theorem tree_places_records:
  assumes "build_tree results = Inr t"
  shows "records_at ks t =
           filter (\<lambda>r. key_path r = ks \<and> \<not> (is_parent r \<and> \<not> is_matched r)) results \<and>
         (\<forall>r\<in>set (records_at ks t). path r = join DELIM ks)"
proof -
  from build_tree_from_records_at [OF assms [unfolded build_tree_def], of ks]
  have eq: "records_at ks t =
      filter (\<lambda>r. key_path r = ks \<and> \<not> (is_parent r \<and> \<not> is_matched r)) results"
    by (simp add: records_at_empty excluded_def)
  moreover have "\<forall>r\<in>set (records_at ks t). path r = join DELIM ks"
    unfolding eq using join_key_path by auto
  ultimately show ?thesis by simp
qed

section \<open>Scenario: an added block\<close>

lemma parse_a_child_b:
  "parse [97, 10, 32, 98] =
     [\<lparr>string = [97], path = [], is_parent = True\<rparr>,
      \<lparr>string = [98], path = [97], is_parent = False\<rparr>]"
  by (simp add: parse_def splitlines_def is_linebreak_def strip_def is_space_def
      indent_def lstrip_blank_def pop_stack_def Let_def)

lemma compare_added_block:
  "compare [97, 10, 32, 98] [] =
     [\<lparr>string = [97], path = [], is_parent = True, best_match = [], similarity_score = - 2,
        is_matched = False, diff_positions = [0], is_added = True\<rparr>,
      \<lparr>string = [98], path = [97], is_parent = False, best_match = [], similarity_score = - 2,
        is_matched = False, diff_positions = [0], is_added = True\<rparr>]"
  by (simp add: compare_def parse_a_child_b parse_empty compare_parsed_def added_records_def
      added_record_def)

lemma key_path_simps:
  "key_path \<lparr>string = s, path = [], is_parent = p, best_match = b, similarity_score = sc,
     is_matched = m, diff_positions = ds, is_added = a\<rparr> = []"
  "key_path \<lparr>string = s, path = [97], is_parent = p, best_match = b, similarity_score = sc,
     is_matched = m, diff_positions = ds, is_added = a\<rparr> = [[97]]"
  by (simp_all add: key_path_def split_delim_def DELIM_def)

lemma build_added_block:
  "build_tree
     [\<lparr>string = [97], path = [], is_parent = True, best_match = [], similarity_score = - 2,
        is_matched = False, diff_positions = [0], is_added = True\<rparr>,
      \<lparr>string = [98], path = [97], is_parent = False, best_match = [], similarity_score = - 2,
        is_matched = False, diff_positions = [0], is_added = True\<rparr>] =
   Inr (Node [([97], Node [(root_items,
     Items [\<lparr>string = [98], path = [97], is_parent = False, best_match = [],
        similarity_score = - 2, is_matched = False, diff_positions = [0], is_added = True\<rparr>])])])"
  by (simp add: build_tree_def key_path_simps setdefault_def)

theorem added_parent_in_no_node:
  "compare (ascii ''a'' @ [10] @ ascii '' b'') [] =
     [\<lparr>string = ascii ''a'', path = [], is_parent = True, best_match = [], similarity_score = - 2,
        is_matched = False, diff_positions = [0], is_added = True\<rparr>,
      \<lparr>string = ascii ''b'', path = ascii ''a'', is_parent = False, best_match = [],
        similarity_score = - 2, is_matched = False, diff_positions = [0], is_added = True\<rparr>] \<and>
   disposition \<lparr>string = ascii ''a'', path = [], is_parent = True, best_match = [],
        similarity_score = - 2, is_matched = False, diff_positions = [0], is_added = True\<rparr> =
     Unmatched_Added \<and>
   build_tree (compare (ascii ''a'' @ [10] @ ascii '' b'') []) =
     Inr (Node [(ascii ''a'', Node [(root_items,
       Items [\<lparr>string = ascii ''b'', path = ascii ''a'', is_parent = False, best_match = [],
         similarity_score = - 2, is_matched = False, diff_positions = [0], is_added = True\<rparr>])])]) \<and>
   records_at [] (Node [(ascii ''a'', Node [(root_items,
       Items [\<lparr>string = ascii ''b'', path = ascii ''a'', is_parent = False, best_match = [],
         similarity_score = - 2, is_matched = False, diff_positions = [0], is_added = True\<rparr>])])]) = []"
  by (simp add: ascii_def compare_added_block build_added_block disposition_def)

theorem tree_places_records_witness:
  "build_tree (compare [97, 10, 32, 98] []) =
     Inr (Node [([97], Node [(root_items,
       Items [\<lparr>string = [98], path = [97], is_parent = False, best_match = [],
         similarity_score = - 2, is_matched = False, diff_positions = [0], is_added = True\<rparr>])])]) \<and>
   records_at [[97]] (Node [([97], Node [(root_items,
       Items [\<lparr>string = [98], path = [97], is_parent = False, best_match = [],
         similarity_score = - 2, is_matched = False, diff_positions = [0], is_added = True\<rparr>])])]) =
     [\<lparr>string = [98], path = [97], is_parent = False, best_match = [],
         similarity_score = - 2, is_matched = False, diff_positions = [0], is_added = True\<rparr>]"
proof -
  have h: "build_tree (compare [97, 10, 32, 98] []) =
     Inr (Node [([97], Node [(root_items,
       Items [\<lparr>string = [98], path = [97], is_parent = False, best_match = [],
         similarity_score = - 2, is_matched = False, diff_positions = [0], is_added = True\<rparr>])])])"
    by (simp add: compare_added_block build_added_block)
  from tree_places_records [OF h, of "[[97]]"] h show ?thesis
    by (simp add: compare_added_block key_path_simps)
qed

section \<open>Rendering visits every record of the tree\<close>






section \<open>The percentage\<close>










section \<open>Scenario: one changed line in a block of four\<close>

lemma cisco_similarity_other_family:
  "hd (split_ws a) \<noteq> hd (split_ws b) \<Longrightarrow> cisco_similarity a b = 0"
  by (simp add: cisco_similarity_def Let_def)

lemma split_ws_block:
  "split_ws [120, 32, 121, 32, 122, 32, 49] = [[120], [121], [122], [49]]"
  "split_ws [120, 32, 121, 32, 122, 32, 50] = [[120], [121], [122], [50]]"
  "split_ws [98] = [[98]]" "split_ws [99] = [[99]]" "split_ws [100] = [[100]]"
  by (simp_all add: split_ws_def is_space_def)


lemma similarity_block:
  "cisco_similarity [120, 32, 121, 32, 122, 32, 49] [98] = 0"
  "cisco_similarity [120, 32, 121, 32, 122, 32, 49] [99] = 0"
  "cisco_similarity [120, 32, 121, 32, 122, 32, 49] [100] = 0"
  "cisco_similarity [98] [98] = 1" "cisco_similarity [98] [99] = 0" "cisco_similarity [98] [100] = 0"
  "cisco_similarity [99] [99] = 1" "cisco_similarity [99] [100] = 0"
  "cisco_similarity [100] [100] = 1"
  by (simp_all add: cisco_similarity_other_family cisco_similarity_same_tokens split_ws_block)










section \<open>Scenario: a block whose header is the reserved key\<close>

lemma parse_root_items:
  "parse (ascii ''root_items'' @ [10] @ ascii '' c'') =
     [\<lparr>string = ascii ''root_items'', path = [], is_parent = True\<rparr>,
      \<lparr>string = [99], path = ascii ''root_items'', is_parent = False\<rparr>]"
  by (simp add: ascii_def parse_def splitlines_def is_linebreak_def strip_def
      is_space_def indent_def lstrip_blank_def pop_stack_def Let_def)

lemma key_path_root_items:
  "key_path \<lparr>string = s, path = ascii ''root_items'', is_parent = p, best_match = b,
     similarity_score = sc, is_matched = m, diff_positions = ds, is_added = a\<rparr> =
   [ascii ''root_items'']"
  by (simp add: key_path_def split_delim_def DELIM_def ascii_def)

lemma compare_root_items_added:
  "compare (ascii ''root_items'' @ [10] @ ascii '' c'') [] =
     [\<lparr>string = ascii ''root_items'', path = [], is_parent = True, best_match = [],
        similarity_score = - 2, is_matched = False,
        diff_positions = [0..<length (ascii ''root_items'')], is_added = True\<rparr>,
      \<lparr>string = [99], path = ascii ''root_items'', is_parent = False, best_match = [],
        similarity_score = - 2, is_matched = False, diff_positions = [0], is_added = True\<rparr>]"
  unfolding compare_def parse_root_items parse_empty
  by (simp add: compare_parsed_def added_records_def added_record_def)

lemma compare_root_items_self:
  "compare (ascii ''root_items'' @ [10] @ ascii '' c'') (ascii ''root_items'' @ [10] @ ascii '' c'') =
     [\<lparr>string = ascii ''root_items'', path = [], is_parent = True,
        best_match = ascii ''root_items'', similarity_score = 1, is_matched = True,
        diff_positions = [], is_added = False\<rparr>,
      \<lparr>string = [99], path = ascii ''root_items'', is_parent = False, best_match = [99],
        similarity_score = 1, is_matched = True, diff_positions = [], is_added = False\<rparr>]"
  unfolding compare_def parse_root_items
  using fl_06_le_1
  by (simp add: compare_parsed_def compare_line_def best_of_def candidates_def Let_def
      similarity_block added_records_def diff_of_def)

text \<open>
  The tree builder raises when a path segment is the reserved key \<^verbatim>\<open>"root_items"\<close> and a
  record is placed beside it: the configuration \<^verbatim>\<open>root_items\<close> with one child line,
  compared with itself, cannot be rendered, and neither can it be when it is all added.
\<close>

lemma build_tree_key_collision:
  "build_tree (compare (ascii ''root_items'' @ [10] @ ascii '' c'')
      (ascii ''root_items'' @ [10] @ ascii '' c'')) = Inl AttributeError"
  unfolding compare_root_items_self
  by (simp add: build_tree_def key_path_simps key_path_root_items setdefault_def root_items_def)

lemma render_key_collision:
  "handle_initial (ascii ''root_items'' @ [10] @ ascii '' c'') [] = Inl AttributeError"
  unfolding handle_initial_def compare_root_items_added
  by (simp add: render_def build_tree_def key_path_simps key_path_root_items setdefault_def
      root_items_def render_tree_def truthy_def)

end
